theory Spec2Isabelle
  imports Complex_Main "HOL-Library.Word"
begin

unbundle bit_operations_syntax

section \<open>JavaScript values\<close>

text \<open>
  A JavaScript string is a sequence of UTF-16 code units; \<open>length\<close>, \<open>charAt\<close>,
  \<open>charCodeAt\<close>, \<open>split\<close> and the regular expressions of the sources all work on code
  units. String literals of the sources are ASCII and are written through \<open>js\<close>.
\<close>

type_synonym code_unit = "16 word"
type_synonym jsstring = "code_unit list"

definition js :: "string \<Rightarrow> jsstring" where
  "js s = map (\<lambda>c. of_nat (of_char c)) s"

text \<open>
  A JavaScript number is an IEEE double. A finite double is kept as the rational it
  denotes; the arithmetic below is exact, so a result that a double would round is only
  meaningful where the text says that no rounding happens. Negative zero is not
  distinguished from zero.
\<close>

datatype js_number = NaN | PosInf | NegInf | Fin rat

datatype js_value = JNull | JUndefined | JString jsstring | JNumber js_number

text \<open>The operator \<open>/\<close> on numbers.\<close>

fun js_divide :: "js_number \<Rightarrow> js_number \<Rightarrow> js_number" where
  "js_divide NaN _ = NaN"
| "js_divide _ NaN = NaN"
| "js_divide (Fin a) (Fin b) =
     (if b = 0 then (if a = 0 then NaN else if 0 < a then PosInf else NegInf)
      else Fin (a / b))"
| "js_divide (Fin a) PosInf = Fin 0"
| "js_divide (Fin a) NegInf = Fin 0"
| "js_divide PosInf (Fin b) = (if 0 \<le> b then PosInf else NegInf)"
| "js_divide NegInf (Fin b) = (if 0 \<le> b then NegInf else PosInf)"
| "js_divide PosInf PosInf = NaN"
| "js_divide PosInf NegInf = NaN"
| "js_divide NegInf PosInf = NaN"
| "js_divide NegInf NegInf = NaN"

text \<open>The comparison \<open>a > b\<close>: false as soon as one side is \<open>NaN\<close>.\<close>

fun js_greater :: "js_number \<Rightarrow> js_number \<Rightarrow> bool" where
  "js_greater NaN _ = False"
| "js_greater _ NaN = False"
| "js_greater (Fin a) (Fin b) = (b < a)"
| "js_greater PosInf PosInf = False"
| "js_greater PosInf _ = True"
| "js_greater NegInf _ = False"
| "js_greater (Fin a) PosInf = False"
| "js_greater (Fin a) NegInf = True"

subsection \<open>Numbers to strings\<close>

function dec_digits :: "int \<Rightarrow> int list" where
  "dec_digits n = (if n < 10 then [n] else dec_digits (n div 10) @ [n mod 10])"
  by pat_completeness auto
termination
  by (relation "measure nat") auto

declare dec_digits.simps [simp del]

definition digit_unit :: "int \<Rightarrow> code_unit" where
  "digit_unit d = of_int (48 + d)"

text \<open>
  \<open>Number.prototype.toString()\<close> of an integer: decimal digits, with a minus sign for a
  negative one. (JavaScript switches to exponent notation from \<open>10^21\<close> on.)
\<close>

definition show_int :: "int \<Rightarrow> jsstring" where
  "show_int i =
     (if i < 0 then js ''-'' @ map digit_unit (dec_digits (- i))
      else map digit_unit (dec_digits i))"


subsection \<open>Splitting\<close>

text \<open>\<open>s.split(sep)[0]\<close> for a non-empty separator: the part before its first occurrence,
  the whole string when it does not occur.\<close>

fun split_first :: "jsstring \<Rightarrow> jsstring \<Rightarrow> jsstring" where
  "split_first sep [] = []"
| "split_first sep (c # cs) =
     (if take (length sep) (c # cs) = sep then [] else c # split_first sep cs)"

section \<open>Version labels\<close>

subsection \<open>The pattern \<open>/v(\d+)\.(\d+)\.(\d+)/\<close>\<close>

definition is_digit :: "code_unit \<Rightarrow> bool" where
  "is_digit c = (48 \<le> c \<and> c \<le> 57)"

text \<open>
  A match that starts at the first unit of the string. \<open>\d+\<close> is greedy, and the unit
  after a group must be a dot (not a digit), so the only run of digits that can lead to a
  match is the longest one: backtracking never finds another.
\<close>

definition version_at :: "jsstring \<Rightarrow> (jsstring \<times> jsstring \<times> jsstring) option" where
  "version_at s =
     (case s of
        [] \<Rightarrow> None
      | c # r1 \<Rightarrow>
          if c \<noteq> 118 then None
          else
            let major = takeWhile is_digit r1; r2 = dropWhile is_digit r1 in
            if major = [] then None
            else (case r2 of
                    [] \<Rightarrow> None
                  | d # r3 \<Rightarrow>
                      if d \<noteq> 46 then None
                      else
                        let minor = takeWhile is_digit r3; r4 = dropWhile is_digit r3 in
                        if minor = [] then None
                        else (case r4 of
                                [] \<Rightarrow> None
                              | e # r5 \<Rightarrow>
                                  if e \<noteq> 46 then None
                                  else
                                    let patch = takeWhile is_digit r5 in
                                    if patch = [] then None
                                    else Some (major, minor, patch))))"

text \<open>\<open>s.match(re)\<close> without the global flag: the leftmost match, or \<open>null\<close>.\<close>

fun version_match :: "jsstring \<Rightarrow> (jsstring \<times> jsstring \<times> jsstring) option" where
  "version_match [] = None"
| "version_match (c # cs) =
     (case version_at (c # cs) of
        Some m \<Rightarrow> Some m
      | None \<Rightarrow> version_match cs)"


text \<open>\<open>Number(s)\<close> for a string of decimal digits.\<close>

definition digit_value :: "code_unit \<Rightarrow> int" where
  "digit_value c = uint c - 48"

definition number_of_digits :: "jsstring \<Rightarrow> int" where
  "number_of_digits s = foldl (\<lambda>a c. 10 * a + digit_value c) 0 s"

text \<open>
  Doubles hold every integer up to \<open>2^53\<close> exactly. Beyond it \<open>Number\<close> rounds and
  \<open>+ 1\<close> may be lost; the functions below return \<open>None\<close> there instead of a label.
\<close>

definition exact_int :: "int \<Rightarrow> bool" where
  "exact_int n \<longleftrightarrow> n < 9007199254740992"

subsection \<open>\<open>AISimilarityService.incrementVersion\<close>\<close>

datatype increment_type = Major | Minor | Patch

definition incrementVersion :: "jsstring \<Rightarrow> increment_type \<Rightarrow> jsstring option" where
  "incrementVersion currentVersion incrementType =
     (case version_match currentVersion of
        None \<Rightarrow> Some (currentVersion @ js ''.1'')
      | Some (ma, mi, pa) \<Rightarrow>
          let major = number_of_digits ma;
              minor = number_of_digits mi;
              patch = number_of_digits pa
          in
          if \<not> (exact_int major \<and> exact_int minor \<and> exact_int patch) then None
          else
            let (major, minor, patch) =
                  (case incrementType of
                     Major \<Rightarrow> (major + 1, 0, 0)
                   | Minor \<Rightarrow> (major, minor + 1, 0)
                   | Patch \<Rightarrow> (major, minor, patch + 1));
                prefix = split_first (js ''-v'') currentVersion
            in Some (prefix @ js ''-v'' @ show_int major @ js ''.'' @ show_int minor
                       @ js ''.'' @ show_int patch))"

section \<open>The remote store\<close>

text \<open>
  Every row lives in a hosted database that the application reaches through an SDK
  client (\<open>blink.db.<table>.list / update / create\<close>). The client is not among the
  sources. A function that only reads takes the answer of each of its remote calls as
  an argument: either the rows that came back or the error the call threw. The rows carry
  the columns the sources read or write.
\<close>

datatype remote_error = RemoteError

record file_row =
  f_id :: jsstring
  f_parent_file_id :: "jsstring option"
  f_name :: jsstring
  f_file_path :: jsstring
  f_file_size :: js_value
  f_uploaded_by :: jsstring
  f_created_at :: jsstring
  f_updated_at :: jsstring
  f_version_label :: jsstring
  f_version_notes :: "jsstring option"
  f_is_latest_version :: jsstring
  f_sequential_number :: "int option"

record file_version_row =
  fv_id :: jsstring
  fv_file_id :: jsstring
  fv_version_label :: jsstring
  fv_file_path :: jsstring
  fv_file_size :: js_value
  fv_uploaded_by :: jsstring
  fv_created_at :: jsstring
  fv_version_notes :: "jsstring option"
  fv_is_current :: jsstring

subsection \<open>\<open>generateVersionLabel\<close> of the upload component\<close>






subsection \<open>The next sequential number of the specification\<close>



section \<open>Name similarity\<close>

subsection \<open>\<open>levenshteinDistance\<close>\<close>

text \<open>
  The assignment \<open>a[i] = v\<close> on an array: it overwrites below the length and appends at
  the length. Every write of \<open>levenshteinDistance\<close> is of one of these two kinds
  (beyond the length JavaScript would leave holes).
\<close>

definition array_set :: "'a list \<Rightarrow> nat \<Rightarrow> 'a \<Rightarrow> 'a list" where
  "array_set xs i v = (if i < length xs then xs[i := v] else xs @ [v])"

text \<open>\<open>matrix[i][j] = v\<close>\<close>

definition cell_set :: "nat list list \<Rightarrow> nat \<Rightarrow> nat \<Rightarrow> nat \<Rightarrow> nat list list" where
  "cell_set matrix i j v = matrix[i := array_set (matrix ! i) j v]"

text \<open>The body of the two nested loops, for one pair \<open>(i, j)\<close>.\<close>

definition fill_cell :: "'a list \<Rightarrow> 'a list \<Rightarrow> nat \<Rightarrow> nat \<Rightarrow> nat list list \<Rightarrow> nat list list" where
  "fill_cell str1 str2 i j matrix =
     (if str2 ! (i - 1) = str1 ! (j - 1) then
        cell_set matrix i j (matrix ! (i - 1) ! (j - 1))
      else
        cell_set matrix i j
          (min (min (matrix ! (i - 1) ! (j - 1) + 1) (matrix ! i ! (j - 1) + 1))
               (matrix ! (i - 1) ! j + 1)))"

text \<open>
  The four loops in the order of the source: a one-element row \<open>[i]\<close> for every
  \<open>i \<le> str2.length\<close>, the first row filled with \<open>0 .. str1.length\<close>, then the rows
  \<open>1 .. str2.length\<close> from left to right. The result is the last cell of the last row.
\<close>

definition levenshteinDistance :: "'a list \<Rightarrow> 'a list \<Rightarrow> nat" where
  "levenshteinDistance str1 str2 =
     (let m0 = fold (\<lambda>i matrix. array_set matrix i [i]) [0..<Suc (length str2)] [];
          m1 = fold (\<lambda>j matrix. cell_set matrix 0 j j) [0..<Suc (length str1)] m0;
          m2 = fold (\<lambda>i matrix. fold (fill_cell str1 str2 i) [1..<Suc (length str1)] matrix)
                 [1..<Suc (length str2)] m1
      in m2 ! length str2 ! length str1)"

subsection \<open>\<open>calculateSimilarity\<close>\<close>

definition calculateSimilarity :: "'a list \<Rightarrow> 'a list \<Rightarrow> js_number" where
  "calculateSimilarity str1 str2 =
     (let longer = (if length str1 > length str2 then str1 else str2);
          shorter = (if length str1 > length str2 then str2 else str1);
          editDistance = levenshteinDistance longer shorter
      in js_divide (Fin (of_int (int (length longer) - int editDistance)))
                   (Fin (of_nat (length longer))))"

subsection \<open>The edit distance of the specification\<close>

text \<open>
  The Levenshtein distance by its defining recurrence: against the empty string it is
  the length of the other string; otherwise it is the least of a substitution (free when
  the first units agree), a deletion and an insertion.
\<close>

fun edit_distance :: "'a list \<Rightarrow> 'a list \<Rightarrow> nat" where
  "edit_distance [] ys = length ys"
| "edit_distance (x # xs) [] = Suc (length xs)"
| "edit_distance (x # xs) (y # ys) =
     min (edit_distance xs ys + (if x = y then 0 else 1))
         (min (edit_distance xs (y # ys) + 1) (edit_distance (x # xs) ys + 1))"

section \<open>The content hash\<close>

text \<open>
  A browser \<open>File\<close>: its name, MIME type, modification time in milliseconds and bytes.
  Its \<open>size\<close> is the number of its bytes.
\<close>

record js_file =
  file_name :: jsstring
  file_type :: jsstring
  file_lastModified :: int
  file_bytes :: "8 word list"

definition file_size :: "js_file \<Rightarrow> nat" where
  "file_size file = length (file_bytes file)"

text \<open>
  One round of either loop: \<open>hash = ((hash << 5) - hash) + c; hash = hash & hash\<close>.
  The shift and the final \<open>&\<close> reduce to a signed 32-bit integer and the arithmetic in
  between is exact, so the round is the same computation on a 32-bit word.
\<close>

definition hash_step :: "32 word \<Rightarrow> 32 word \<Rightarrow> 32 word" where
  "hash_step c hash = (push_bit 5 hash - hash) + c"

function hex_digits :: "int \<Rightarrow> int list" where
  "hex_digits n = (if n < 16 then [n] else hex_digits (n div 16) @ [n mod 16])"
  by pat_completeness auto
termination
  by (relation "measure nat") auto

declare hex_digits.simps [simp del]

definition hex_unit :: "int \<Rightarrow> code_unit" where
  "hex_unit d = (if d < 10 then of_int (48 + d) else of_int (87 + d))"

text \<open>\<open>n.toString(16)\<close> for a non-negative integer.\<close>

definition show_hex :: "int \<Rightarrow> jsstring" where
  "show_hex n = map hex_unit (hex_digits n)"

text \<open>
  The reader is given the first 1000 bytes; the second loop runs over the first
  \<open>Math.min(bytes.length, 100)\<close> of them. The string hashed first is
  \<open>file.name + file.size + file.lastModified\<close>.
\<close>

definition generateFileHash :: "js_file \<Rightarrow> jsstring" where
  "generateFileHash file =
     (let bytes = take 1000 (file_bytes file);
          str = file_name file @ show_int (int (file_size file)) @ show_int (file_lastModified file);
          hash = fold hash_step (map ucast str) 0;
          hash = fold hash_step (map ucast (take (min (length bytes) 100) bytes)) hash
      in show_hex \<bar>sint hash\<bar>)"

section \<open>The file-size formatter\<close>

text \<open>
  \<open>Math.floor(Math.log(bytes) / Math.log(1024))\<close> for a positive finite number, in exact
  arithmetic: the integer \<open>i\<close> with \<open>1024^i \<le> bytes < 1024^(i+1)\<close>. (The quotient of two
  rounded logarithms can land on the other side of an integer when \<open>bytes\<close> is within
  rounding distance of a power of 1024; that is not modelled.)
\<close>

function ilog1024 :: "int \<Rightarrow> int" where
  "ilog1024 n = (if n < 1024 then 0 else 1 + ilog1024 (n div 1024))"
  by pat_completeness auto
termination
  by (relation "measure nat") auto

declare ilog1024.simps [simp del]

definition floor_log1024 :: "rat \<Rightarrow> int" where
  "floor_log1024 r =
     (if 1 \<le> r then ilog1024 \<lfloor>r\<rfloor> else - (1 + ilog1024 (\<lceil>1 / r\<rceil> - 1)))"

definition math_floor_log1024 :: "js_number \<Rightarrow> js_number" where
  "math_floor_log1024 bytes =
     (case bytes of
        Fin r \<Rightarrow> if 0 < r then Fin (of_int (floor_log1024 r)) else if r = 0 then NegInf else NaN
      | PosInf \<Rightarrow> PosInf
      | NegInf \<Rightarrow> NaN
      | NaN \<Rightarrow> NaN)"

text \<open>\<open>Math.pow(1024, i)\<close> for an integer or non-finite \<open>i\<close>.\<close>

definition math_pow1024 :: "js_number \<Rightarrow> js_number" where
  "math_pow1024 i =
     (case i of
        Fin e \<Rightarrow> Fin (1024 powi \<lfloor>e\<rfloor>)
      | PosInf \<Rightarrow> PosInf
      | NegInf \<Rightarrow> Fin 0
      | NaN \<Rightarrow> NaN)"

text \<open>
  \<open>parseFloat(x.toFixed(2))\<close> turned into a string by \<open>+ ' '\<close>, for \<open>x \<ge> 0\<close>: \<open>toFixed\<close>
  rounds to hundredths (a tie goes up), and the way back through \<open>parseFloat\<close> drops
  the trailing zeros of the fraction.
\<close>

definition show_fixed2 :: "rat \<Rightarrow> jsstring" where
  "show_fixed2 q =
     (let n = \<lfloor>q * 100 + 1 / 2\<rfloor>; whole = n div 100; cents = n mod 100 in
      show_int whole @
        (if cents = 0 then []
         else js ''.'' @
           (if cents mod 10 = 0 then [digit_unit (cents div 10)]
            else [digit_unit (cents div 10), digit_unit (cents mod 10)])))"

definition fixed2_string :: "js_number \<Rightarrow> jsstring" where
  "fixed2_string x =
     (case x of
        Fin q \<Rightarrow> show_fixed2 q
      | NaN \<Rightarrow> js ''NaN''
      | PosInf \<Rightarrow> js ''Infinity''
      | NegInf \<Rightarrow> js ''-Infinity'')"

definition sizes :: "jsstring list" where
  "sizes = [js ''Bytes'', js ''KB'', js ''MB'', js ''GB'']"

text \<open>\<open>sizes[i]\<close> in a string concatenation: \<open>undefined\<close> outside the array.\<close>

definition sizes_at :: "js_number \<Rightarrow> jsstring" where
  "sizes_at i =
     (case i of
        Fin e \<Rightarrow> if 0 \<le> e \<and> e < 4 \<and> of_int \<lfloor>e\<rfloor> = e then sizes ! nat \<lfloor>e\<rfloor> else js ''undefined''
      | _ \<Rightarrow> js ''undefined'')"

subsection \<open>The three copies\<close>

definition formatFileSize_FileUpload :: "js_number \<Rightarrow> jsstring" where
  "formatFileSize_FileUpload bytes =
     (if bytes = Fin 0 then js ''0 Bytes''
      else
        let i = math_floor_log1024 bytes
        in fixed2_string (js_divide bytes (math_pow1024 i)) @ js '' '' @ sizes_at i)"

definition formatFileSize_VersionHistory :: "js_number \<Rightarrow> jsstring" where
  "formatFileSize_VersionHistory bytes =
     (if bytes = Fin 0 then js ''0 Bytes''
      else
        let i = math_floor_log1024 bytes
        in fixed2_string (js_divide bytes (math_pow1024 i)) @ js '' '' @ sizes_at i)"

text \<open>
  The copy of the dashboard page takes \<open>number | string | null | undefined\<close> and converts
  with \<open>Number(bytes)\<close>. The conversion of a string is the built-in \<open>StringToNumber\<close>,
  a parameter here.
\<close>

definition ToNumber :: "(jsstring \<Rightarrow> js_number) \<Rightarrow> js_value \<Rightarrow> js_number" where
  "ToNumber StringToNumber v =
     (case v of
        JNull \<Rightarrow> Fin 0
      | JUndefined \<Rightarrow> NaN
      | JString s \<Rightarrow> StringToNumber s
      | JNumber n \<Rightarrow> n)"

definition formatFileSize_Dashboard :: "(jsstring \<Rightarrow> js_number) \<Rightarrow> js_value \<Rightarrow> jsstring" where
  "formatFileSize_Dashboard StringToNumber bytes =
     (if bytes = JNull \<or> bytes = JUndefined \<or> bytes = JString []
         \<or> ToNumber StringToNumber bytes = NaN
      then js ''0 Bytes''
      else
        let numBytes = ToNumber StringToNumber bytes in
        if numBytes = Fin 0 then js ''0 Bytes''
        else
          let i = math_floor_log1024 numBytes
          in fixed2_string (js_divide numBytes (math_pow1024 i)) @ js '' '' @ sizes_at i)"

section \<open>Searching for similar files\<close>

text \<open>
  \<open>Array.prototype.sort\<close> is stable. With a consistent comparator every stable sort
  returns the same array, the one insertion sort computes; \<open>precedes a b\<close> says that the
  comparator does not put \<open>a\<close> after \<open>b\<close> (its result is not positive; \<open>NaN\<close> counts as
  zero). With an inconsistent comparator the order depends on the engine, and the result
  is still a permutation.
\<close>

fun insert_by :: "('a \<Rightarrow> 'a \<Rightarrow> bool) \<Rightarrow> 'a \<Rightarrow> 'a list \<Rightarrow> 'a list" where
  "insert_by precedes x [] = [x]"
| "insert_by precedes x (y # ys) =
     (if precedes x y then x # y # ys else y # insert_by precedes x ys)"

definition sort_by :: "('a \<Rightarrow> 'a \<Rightarrow> bool) \<Rightarrow> 'a list \<Rightarrow> 'a list" where
  "sort_by precedes xs = foldr (insert_by precedes) xs []"

text \<open>
  One entry of the result. The two free-text fields of the sources
  (\<open>similarityReason\<close>, \<open>aiAnalysis\<close>) are left out.
\<close>

record SimilarityResult =
  sr_fileId :: jsstring
  sr_fileName :: jsstring
  sr_versionLabel :: jsstring
  sr_uploadedBy :: jsstring
  sr_createdAt :: jsstring
  sr_similarityScore :: js_number
  sr_contentSimilarity :: js_number
  sr_nameSimilarity :: js_number

text \<open>\<open>(a, b) => b.similarityScore - a.similarityScore\<close>\<close>

definition by_score_desc :: "SimilarityResult \<Rightarrow> SimilarityResult \<Rightarrow> bool" where
  "by_score_desc a b \<longleftrightarrow> \<not> js_greater (sr_similarityScore b) (sr_similarityScore a)"

subsection \<open>\<open>AISimilarityService.findSimilarFiles\<close>\<close>

text \<open>One element of \<open>similarities\<close> in the answer of the hosted model; its numbers
  are JSON numbers, hence finite.\<close>

record ai_similarity =
  ai_fileIndex :: rat
  ai_contentSimilarity :: rat
  ai_nameSimilarity :: rat
  ai_overallSimilarity :: rat
  ai_shouldVersion :: bool

text \<open>\<open>existingFiles[fileIndex]\<close>: \<open>undefined\<close> unless the index is an integer within the
  array.\<close>

definition element_at :: "'a list \<Rightarrow> rat \<Rightarrow> 'a option" where
  "element_at xs i =
     (if of_int \<lfloor>i\<rfloor> = i \<and> 0 \<le> i \<and> nat \<lfloor>i\<rfloor> < length xs then Some (xs ! nat \<lfloor>i\<rfloor>) else None)"

text \<open>The double written \<open>0.3\<close>.\<close>

definition double_0_3 :: rat where
  "double_0_3 = 5404319552844595 / 18014398509481984"

definition ai_results :: "file_row list \<Rightarrow> ai_similarity list \<Rightarrow> SimilarityResult list" where
  "ai_results existingFiles similarities =
     concat (map (\<lambda>similarity.
        if double_0_3 < ai_overallSimilarity similarity \<and> ai_shouldVersion similarity then
          (case element_at existingFiles (ai_fileIndex similarity) of
             None \<Rightarrow> []
           | Some existingFile \<Rightarrow>
               [\<lparr> sr_fileId = f_id existingFile,
                  sr_fileName = f_name existingFile,
                  sr_versionLabel = f_version_label existingFile,
                  sr_uploadedBy = f_uploaded_by existingFile,
                  sr_createdAt = f_created_at existingFile,
                  sr_similarityScore = Fin (ai_overallSimilarity similarity),
                  sr_contentSimilarity = Fin (ai_contentSimilarity similarity),
                  sr_nameSimilarity = Fin (ai_nameSimilarity similarity) \<rparr>])
        else []) similarities)"

text \<open>
  \<open>listed\<close> is the answer to \<open>files.list\<close> (the latest files of the organisation, at
  most 20); \<open>generated\<close> is the answer to \<open>ai.generateObject\<close>, asked only when files
  came back. The \<open>catch\<close> returns the empty array.
\<close>

definition findSimilarFiles ::
  "(remote_error + file_row list) \<Rightarrow> (remote_error + ai_similarity list) \<Rightarrow> SimilarityResult list" where
  "findSimilarFiles listed generated =
     (case listed of
        Inl e \<Rightarrow> []
      | Inr existingFiles \<Rightarrow>
          if length existingFiles = 0 then []
          else (case generated of
                  Inl e \<Rightarrow> []
                | Inr similarities \<Rightarrow> sort_by by_score_desc (ai_results existingFiles similarities)))"

subsection \<open>\<open>analyzeAndFindSimilarFiles\<close> of the upload component\<close>

fun includes_str :: "jsstring \<Rightarrow> jsstring \<Rightarrow> bool" where
  "includes_str sub [] = (sub = [])"
| "includes_str sub (c # cs) = (take (length sub) (c # cs) = sub \<or> includes_str sub cs)"

definition startsWith :: "jsstring \<Rightarrow> jsstring \<Rightarrow> bool" where
  "startsWith p s \<longleftrightarrow> take (length p) s = p"

record FileAnalysis =
  contentType :: jsstring
  keyTerms :: "jsstring list"
  documentPurpose :: jsstring
  suggestedCategory :: jsstring
  extractedMetadata :: "(jsstring \<times> nat \<times> jsstring) option"

definition describe_type :: "jsstring \<Rightarrow> jsstring" where
  "describe_type t =
     (if includes_str (js ''pdf'') t then js ''PDF Document''
      else if startsWith (js ''image/'') t then js ''Image File''
      else if includes_str (js ''document'') t then js ''Text Document''
      else js ''File'')"

text \<open>The double written \<open>0.5\<close> is exactly one half.\<close>

definition name_matches :: "(jsstring \<Rightarrow> jsstring) \<Rightarrow> jsstring \<Rightarrow> file_row list \<Rightarrow> SimilarityResult list" where
  "name_matches toLowerCase fileBaseName existingFiles =
     concat (map (\<lambda>existingFile.
        let existingName = toLowerCase (f_name existingFile);
            existingBaseName = split_first (js ''.'') existingName;
            nameSimilarity = calculateSimilarity fileBaseName existingBaseName
        in
        if js_greater nameSimilarity (Fin (1 / 2)) then
          [\<lparr> sr_fileId = f_id existingFile,
             sr_fileName = f_name existingFile,
             sr_versionLabel = f_version_label existingFile,
             sr_uploadedBy = f_uploaded_by existingFile,
             sr_createdAt = f_created_at existingFile,
             sr_similarityScore = nameSimilarity,
             sr_contentSimilarity = nameSimilarity,
             sr_nameSimilarity = nameSimilarity \<rparr>]
        else []) existingFiles)"

text \<open>
  \<open>listed\<close> is the answer to \<open>files.list\<close> (the latest files of the organisation, at
  most 10). \<open>toLowerCase\<close> is the built-in of that name. The result is the pair of the
  source's \<open>analysis\<close> and \<open>similarFiles\<close>.
\<close>

definition analyzeAndFindSimilarFiles ::
  "(jsstring \<Rightarrow> jsstring) \<Rightarrow> js_file \<Rightarrow> (remote_error + file_row list)
     \<Rightarrow> FileAnalysis \<times> SimilarityResult list" where
  "analyzeAndFindSimilarFiles toLowerCase file listed =
     (case listed of
        Inl e \<Rightarrow>
          (\<lparr> contentType = js ''File'',
             keyTerms = [file_name file],
             documentPurpose = js ''Document file'',
             suggestedCategory = js ''general'',
             extractedMetadata = None \<rparr>,
           [])
      | Inr existingFiles \<Rightarrow>
          let analysis =
                \<lparr> contentType = describe_type (file_type file),
                  keyTerms = [split_first (js ''.'') (file_name file)],
                  documentPurpose = describe_type (file_type file) @ js '' for organization'',
                  suggestedCategory = js ''general'',
                  extractedMetadata = Some (file_name file, file_size file, file_type file) \<rparr>;
              fileName = toLowerCase (file_name file);
              fileBaseName = split_first (js ''.'') fileName;
              similarFiles = name_matches toLowerCase fileBaseName existingFiles
          in (analysis, sort_by by_score_desc similarFiles))"

section \<open>The version history\<close>

text \<open>The component's \<open>FileVersion\<close>: one entry of the displayed history.\<close>

record FileVersion =
  v_id :: jsstring
  v_version_label :: jsstring
  v_file_path :: jsstring
  v_file_size :: js_value
  v_uploaded_by :: jsstring
  v_created_at :: jsstring
  v_version_notes :: jsstring
  v_is_current :: jsstring

text \<open>\<open>notes || ''\<close>\<close>

definition or_empty :: "jsstring option \<Rightarrow> jsstring" where
  "or_empty notes = (case notes of None \<Rightarrow> [] | Some s \<Rightarrow> s)"

definition of_version_row :: "file_version_row \<Rightarrow> FileVersion" where
  "of_version_row version =
     \<lparr> v_id = fv_id version,
       v_version_label = fv_version_label version,
       v_file_path = fv_file_path version,
       v_file_size = fv_file_size version,
       v_uploaded_by = fv_uploaded_by version,
       v_created_at = fv_created_at version,
       v_version_notes = or_empty (fv_version_notes version),
       v_is_current = fv_is_current version \<rparr>"

definition of_file_row :: "file_row \<Rightarrow> FileVersion" where
  "of_file_row file =
     \<lparr> v_id = f_id file,
       v_version_label = f_version_label file,
       v_file_path = f_file_path file,
       v_file_size = f_file_size file,
       v_uploaded_by = f_uploaded_by file,
       v_created_at = f_created_at file,
       v_version_notes = or_empty (f_version_notes file),
       v_is_current = f_is_latest_version file \<rparr>"

text \<open>\<open>self.findIndex(p)\<close>: the first index whose element satisfies \<open>p\<close>; \<open>None\<close> is
  the source's \<open>-1\<close>.\<close>

fun findIndex :: "('a \<Rightarrow> bool) \<Rightarrow> 'a list \<Rightarrow> nat option" where
  "findIndex p [] = None"
| "findIndex p (x # xs) = (if p x then Some 0 else map_option Suc (findIndex p xs))"

text \<open>
  \<open>allVersions.filter((version, index, self) =>
     index === self.findIndex(v => v.id === version.id))\<close>
\<close>

definition uniqueById :: "FileVersion list \<Rightarrow> FileVersion list" where
  "uniqueById allVersions =
     map snd (filter (\<lambda>(index, version).
                 Some index = findIndex (\<lambda>v. v_id v = v_id version) allVersions)
              (enumerate 0 allVersions))"

text \<open>
  \<open>(a, b) => new Date(b.created_at).getTime() - new Date(a.created_at).getTime()\<close>.
  \<open>getTime\<close> is the built-in parsing of a date string, \<open>None\<close> for the \<open>NaN\<close> of
  a string that is no date.
\<close>

definition by_date_desc :: "(jsstring \<Rightarrow> int option) \<Rightarrow> FileVersion \<Rightarrow> FileVersion \<Rightarrow> bool" where
  "by_date_desc getTime a b =
     (case (getTime (v_created_at b), getTime (v_created_at a)) of
        (Some tb, Some ta) \<Rightarrow> tb - ta \<le> 0
      | _ \<Rightarrow> True)"

definition mergeVersions ::
  "(jsstring \<Rightarrow> int option) \<Rightarrow> file_version_row list \<Rightarrow> file_row list \<Rightarrow> FileVersion list" where
  "mergeVersions getTime fileVersions originalFile =
     (let allVersions = map of_version_row fileVersions @ map of_file_row originalFile
      in sort_by (by_date_desc getTime) (uniqueById allVersions))"

text \<open>
  \<open>loadVersions\<close>: the two arguments \<open>listedVersions\<close> and \<open>listedFiles\<close> are the answers
  to \<open>fileVersions.list\<close> and \<open>files.list\<close>. The result is the component's \<open>versions\<close>
  state afterwards: the \<open>catch\<close> leaves it as it was.
\<close>

definition loadVersions ::
  "(jsstring \<Rightarrow> int option) \<Rightarrow> (remote_error + file_version_row list)
     \<Rightarrow> (remote_error + file_row list) \<Rightarrow> FileVersion list \<Rightarrow> FileVersion list" where
  "loadVersions getTime listedVersions listedFiles versions =
     (case listedVersions of
        Inl e \<Rightarrow> versions
      | Inr fileVersions \<Rightarrow>
          (case listedFiles of
             Inl e \<Rightarrow> versions
           | Inr originalFile \<Rightarrow> mergeVersions getTime fileVersions originalFile))"

subsection \<open>Writing to the remote store\<close>

record activity_row =
  a_id :: jsstring
  a_organization_id :: jsstring
  a_file_id :: jsstring
  a_user_id :: jsstring
  a_action :: jsstring
  a_details :: jsstring

record remote_store =
  fileVersions :: "file_version_row list"
  files :: "file_row list"
  activityLog :: "activity_row list"




subsection \<open>\<open>handleRestore\<close>\<close>




subsection \<open>The history read back from the store\<close>







section \<open>The matrix of \<open>levenshteinDistance\<close>, cell by cell\<close>

text \<open>
  What the cell in row \<open>r\<close> and column \<open>c\<close> is meant to hold: the edit distance between
  the first \<open>r\<close> units of \<open>str2\<close> and the first \<open>c\<close> units of \<open>str1\<close>.
\<close>

definition prefix_distance :: "'a list \<Rightarrow> 'a list \<Rightarrow> nat \<Rightarrow> nat \<Rightarrow> nat" where
  "prefix_distance str1 str2 r c = edit_distance (take r str2) (take c str1)"

text \<open>
  The state of the matrix while the nested loops run: the rows above \<open>i\<close> are complete,
  row \<open>i\<close> is filled up to column \<open>j\<close>, the rows below still are \<open>[r]\<close>.
\<close>

definition rows_filled :: "'a list \<Rightarrow> 'a list \<Rightarrow> nat \<Rightarrow> nat \<Rightarrow> nat list list \<Rightarrow> bool" where
  "rows_filled str1 str2 i j matrix \<longleftrightarrow>
     length matrix = Suc (length str2) \<and>
     (\<forall>r < i. matrix ! r = map (prefix_distance str1 str2 r) [0..<Suc (length str1)]) \<and>
     matrix ! i = map (prefix_distance str1 str2 i) [0..<Suc j] \<and>
     (\<forall>r. i < r \<and> r \<le> length str2 \<longrightarrow> matrix ! r = [r])"

section \<open>Sample data\<close>


text \<open>Two files of 101 bytes that differ in the last byte only.\<close>

definition sample_upload :: "8 word \<Rightarrow> js_file" where
  "sample_upload b =
     \<lparr> file_name = js ''report.bin'', file_type = js ''application/octet-stream'',
       file_lastModified = 1700000000000, file_bytes = replicate 100 7 @ [b] \<rparr>"











section \<open>Properties of the printed numbers\<close>

lemma dec_digits_nonempty: "dec_digits n \<noteq> []"
  by (subst dec_digits.simps) simp

lemma dec_digits_range: "0 \<le> n \<Longrightarrow> d \<in> set (dec_digits n) \<Longrightarrow> 0 \<le> d \<and> d \<le> 9"
proof (induction n rule: dec_digits.induct)
  case (1 n)
  show ?case
  proof (cases "n < 10")
    case True
    with "1.prems" show ?thesis by (subst (asm) dec_digits.simps) simp
  next
    case False
    from "1.prems"(2) have "d \<in> set (dec_digits (n div 10)) \<or> d = n mod 10"
      using False by (subst (asm) dec_digits.simps) auto
    then show ?thesis
    proof
      assume "d \<in> set (dec_digits (n div 10))"
      moreover from "1.prems"(1) have "0 \<le> n div 10" by simp
      ultimately show ?thesis using "1.IH" False by blast
    next
      assume "d = n mod 10"
      then show ?thesis by simp
    qed
  qed
qed

lemma digit_unit_is_digit: "0 \<le> d \<Longrightarrow> d \<le> 9 \<Longrightarrow> is_digit (digit_unit d)"
proof -
  assume "0 \<le> d" "d \<le> 9"
  then have "d = 0 \<or> d = 1 \<or> d = 2 \<or> d = 3 \<or> d = 4 \<or> d = 5 \<or> d = 6 \<or> d = 7 \<or> d = 8 \<or> d = 9"
    by presburger
  then show ?thesis
    by (elim disjE) (simp_all add: is_digit_def digit_unit_def)
qed

lemma printed_digits: "0 \<le> n \<Longrightarrow> c \<in> set (map digit_unit (dec_digits n)) \<Longrightarrow> is_digit c"
  by (auto dest: dec_digits_range intro: digit_unit_is_digit)


lemma show_int_starts_with_digit:
  assumes "0 \<le> i"
  shows "show_int i \<noteq> [] \<and> is_digit (hd (show_int i))"
proof -
  from assms have s: "show_int i = map digit_unit (dec_digits i)"
    by (simp add: show_int_def)
  have n: "map digit_unit (dec_digits i) \<noteq> []"
    by (simp add: dec_digits_nonempty)
  then have "hd (map digit_unit (dec_digits i)) \<in> set (map digit_unit (dec_digits i))"
    by (rule hd_in_set)
  with assms have "is_digit (hd (map digit_unit (dec_digits i)))"
    by (rule printed_digits)
  with n show ?thesis unfolding s by simp
qed

section \<open>Properties of the version labels\<close>

text \<open>
  C2. Incrementing the patch component of \<open>VT-01-v1.0.0\<close> gives \<open>VT-01-v1.0.1\<close>, and
  incrementing the minor component of \<open>VT-01-v1.9.9\<close> gives \<open>VT-01-v1.10.0\<close>: the minor
  number is incremented as a number (9 becomes 10) and the patch number is reset.
\<close>

theorem incrementVersion_examples:
  "incrementVersion (js ''VT-01-v1.0.0'') Patch = Some (js ''VT-01-v1.0.1'') \<and>
   incrementVersion (js ''VT-01-v1.9.9'') Minor = Some (js ''VT-01-v1.10.0'')"
  by code_simp

subsection \<open>The pattern and the labels without a version\<close>

lemma not_digit_dot [simp]: "\<not> is_digit 46" by (simp add: is_digit_def)

















section \<open>Properties of the file-size formatter\<close>

subsection \<open>The exponent\<close>

text \<open>
  \<open>floor_log1024\<close> is the floor of the logarithm to base 1024: the power of 1024 with
  this exponent is at most the number, the next power is above it.
\<close>

lemma ilog1024_nonneg: "0 \<le> ilog1024 n"
  by (induction n rule: ilog1024.induct) (subst ilog1024.simps, simp)

lemma ilog1024_bounds:
  "1 \<le> n \<Longrightarrow> 1024 ^ nat (ilog1024 n) \<le> n \<and> n < 1024 ^ nat (ilog1024 n + 1)"
proof (induction n rule: ilog1024.induct)
  case (1 n)
  show ?case
  proof (cases "n < 1024")
    case True
    with "1.prems" show ?thesis by (subst (1 2) ilog1024.simps) simp
  next
    case False
    let ?k = "ilog1024 (n div 1024)"
    from False have "1 \<le> n div 1024" by simp
    with "1.IH" False have ih: "1024 ^ nat ?k \<le> n div 1024" "n div 1024 < 1024 ^ nat (?k + 1)"
      by simp_all
    have k: "0 \<le> ?k" by (rule ilog1024_nonneg)
    have e: "ilog1024 n = 1 + ?k" using False by (subst ilog1024.simps) simp
    have n1: "nat (1 + ?k) = Suc (nat ?k)" using k by simp
    have n2: "nat (1 + ?k + 1) = Suc (Suc (nat ?k))" using k by simp
    have n3: "nat (?k + 1) = Suc (nat ?k)" using k by simp
    define q where "q = n div 1024"
    define m where "m = n mod 1024"
    have n: "n = 1024 * q + m" unfolding q_def m_def by simp
    have m: "0 \<le> m" "m < 1024" unfolding m_def by simp_all
    define p :: int where "p = 1024 ^ nat ?k"
    from ih have p: "p \<le> q" "q < 1024 * p" unfolding p_def q_def n3 by simp_all
    have lo: "1024 ^ nat (1 + ?k) \<le> n"
      unfolding n1 power_Suc p_def [symmetric] using p(1) n m by linarith
    have hi: "n < 1024 ^ nat (1 + ?k + 1)"
      unfolding n2 power_Suc p_def [symmetric] using p(2) n m by linarith
    from lo hi show ?thesis unfolding e by simp
  qed
qed

lemma floor_log1024_bounds:
  assumes "0 < r"
  shows "1024 powi (floor_log1024 r) \<le> r \<and> r < 1024 powi (floor_log1024 r + 1)"
proof (cases "1 \<le> r")
  case True
  then have f: "1 \<le> \<lfloor>r\<rfloor>" by simp
  define k where "k = nat (ilog1024 \<lfloor>r\<rfloor>)"
  have i: "floor_log1024 r = int k"
    using True ilog1024_nonneg [of "\<lfloor>r\<rfloor>"] by (simp add: floor_log1024_def k_def)
  from ilog1024_bounds [OF f] have b: "1024 ^ k \<le> \<lfloor>r\<rfloor>" "\<lfloor>r\<rfloor> < 1024 ^ Suc k"
    using ilog1024_nonneg [of "\<lfloor>r\<rfloor>"] by (simp_all add: k_def nat_add_distrib)
  from b(1) have "of_int (1024 ^ k) \<le> (of_int \<lfloor>r\<rfloor> :: rat)"
    by (simp only: of_int_le_iff)
  then have "(1024 :: rat) ^ k \<le> of_int \<lfloor>r\<rfloor>" by simp
  moreover have "of_int \<lfloor>r\<rfloor> \<le> r" by simp
  ultimately have lo: "(1024 :: rat) ^ k \<le> r" by (rule order_trans)
  from b(2) have "\<lfloor>r\<rfloor> + 1 \<le> 1024 ^ Suc k" by simp
  then have "(of_int (\<lfloor>r\<rfloor> + 1) :: rat) \<le> of_int (1024 ^ Suc k)"
    by (simp only: of_int_le_iff)
  then have w: "(of_int (\<lfloor>r\<rfloor> + 1) :: rat) \<le> 1024 ^ Suc k" by simp
  have "r < of_int (\<lfloor>r\<rfloor> + 1)" by linarith
  from this w have hi: "r < (1024 :: rat) ^ Suc k" by (rule less_le_trans)
  have "int k + 1 = int (Suc k)" by simp
  with lo hi show ?thesis
    unfolding i by (simp only: power_int_of_nat) 
next
  case False
  with assms have r: "0 < r" "r < 1" by simp_all
  then have "1 < 1 / r" by simp
  then have c: "2 \<le> \<lceil>1 / r\<rceil>" by linarith
  define n where "n = \<lceil>1 / r\<rceil> - 1"
  from c have n: "1 \<le> n" by (simp add: n_def)
  define k where "k = nat (ilog1024 n)"
  have i: "floor_log1024 r = - int (Suc k)"
    using False ilog1024_nonneg [of n] by (simp add: floor_log1024_def k_def n_def)
  from ilog1024_bounds [OF n] have b: "1024 ^ k \<le> n" "n < 1024 ^ Suc k"
    using ilog1024_nonneg [of n] by (simp_all add: k_def nat_add_distrib)
  have u: "of_int n < 1 / r" unfolding n_def by linarith
  from b(1) have "(of_int (1024 ^ k) :: rat) \<le> of_int n"
    by (simp only: of_int_le_iff)
  then have "(1024 :: rat) ^ k \<le> of_int n" by simp
  from this u have "(1024 :: rat) ^ k < 1 / r" by (rule le_less_trans)
  with r(1) have hi: "r < 1 / 1024 ^ k"
    by (simp add: field_simps)
  have v: "1 / r \<le> of_int (n + 1)" unfolding n_def by simp
  from b(2) have "n + 1 \<le> 1024 ^ Suc k" by simp
  then have "(of_int (n + 1) :: rat) \<le> of_int (1024 ^ Suc k)"
    by (simp only: of_int_le_iff)
  then have "(of_int (n + 1) :: rat) \<le> 1024 ^ Suc k" by simp
  with v have "1 / r \<le> (1024 :: rat) ^ Suc k" by (rule order_trans)
  with r(1) have lo: "1 / 1024 ^ Suc k \<le> r"
    by (simp add: field_simps)
  have e1: "(1024 :: rat) powi (- int (Suc k)) = 1 / 1024 ^ Suc k"
    by (simp only: power_int_minus power_int_of_nat inverse_eq_divide)
  have "- int (Suc k) + 1 = - int k" by simp
  then have e2: "(1024 :: rat) powi (- int (Suc k) + 1) = 1 / 1024 ^ k"
    by (simp only: power_int_minus power_int_of_nat inverse_eq_divide)
  from lo hi show ?thesis unfolding i e1 e2 by simp
qed

subsection \<open>The formatted sizes\<close>

text \<open>
  C9. Each of the three copies of the formatter (upload component, version history,
  dashboard page) returns \<open>0 Bytes\<close> for the number 0 and \<open>1.5 KB\<close> for the number 1536.
  For 1536 the quotient of the logarithms is about 1.058, far from an integer, so the
  exact floor is the one the doubles give; 1536 / 1024 is exactly 1.5.
\<close>

theorem formatFileSize_examples:
  "formatFileSize_FileUpload (Fin 0) = js ''0 Bytes'' \<and>
   formatFileSize_FileUpload (Fin 1536) = js ''1.5 KB'' \<and>
   formatFileSize_VersionHistory (Fin 0) = js ''0 Bytes'' \<and>
   formatFileSize_VersionHistory (Fin 1536) = js ''1.5 KB'' \<and>
   formatFileSize_Dashboard StringToNumber (JNumber (Fin 0)) = js ''0 Bytes'' \<and>
   formatFileSize_Dashboard StringToNumber (JNumber (Fin 1536)) = js ''1.5 KB''"
  by code_simp

subsection \<open>Inputs that are no sizes\<close>

lemma show_fixed2_starts_with_digit:
  assumes "0 \<le> q"
  shows "show_fixed2 q \<noteq> [] \<and> is_digit (hd (show_fixed2 q))"
proof -
  define n where "n = \<lfloor>q * 100 + 1 / 2\<rfloor>"
  from assms have "0 \<le> n" by (simp add: n_def)
  then have "0 \<le> n div 100" by simp
  from show_int_starts_with_digit [OF this] show ?thesis
    by (simp add: show_fixed2_def Let_def n_def)
qed

lemma NaN_undefined: "js ''NaN'' @ js '' '' @ js ''undefined'' = js ''NaN undefined''"
  by (simp add: js_def)

lemma format_negative:
  assumes "r < 0"
  shows "fixed2_string (js_divide (Fin r) (math_pow1024 (math_floor_log1024 (Fin r))))
           @ js '' '' @ sizes_at (math_floor_log1024 (Fin r)) = js ''NaN undefined''"
  using assms
  by (simp add: math_floor_log1024_def math_pow1024_def fixed2_string_def sizes_at_def NaN_undefined)

lemma format_infinite:
  assumes "x = PosInf \<or> x = NegInf"
  shows "fixed2_string (js_divide x (math_pow1024 (math_floor_log1024 x)))
           @ js '' '' @ sizes_at (math_floor_log1024 x) = js ''NaN undefined''"
  using assms
  by (auto simp: math_floor_log1024_def math_pow1024_def fixed2_string_def sizes_at_def NaN_undefined)

lemma format_positive:
  assumes "0 < r"
  shows "fixed2_string (js_divide (Fin r) (math_pow1024 (math_floor_log1024 (Fin r))))
           @ js '' '' @ sizes_at (math_floor_log1024 (Fin r)) \<noteq> js ''NaN undefined''"
proof -
  let ?i = "floor_log1024 r"
  have p: "(0 :: rat) < 1024 powi ?i" by simp
  with assms have q: "0 \<le> r / 1024 powi ?i" by simp
  from p have d: "js_divide (Fin r) (math_pow1024 (math_floor_log1024 (Fin r))) = Fin (r / 1024 powi ?i)"
    using assms by (simp add: math_floor_log1024_def math_pow1024_def)
  from show_fixed2_starts_with_digit [OF q]
  have s: "show_fixed2 (r / 1024 powi ?i) \<noteq> []" "is_digit (hd (show_fixed2 (r / 1024 powi ?i)))"
    by simp_all
  show ?thesis
  proof
    assume "fixed2_string (js_divide (Fin r) (math_pow1024 (math_floor_log1024 (Fin r))))
           @ js '' '' @ sizes_at (math_floor_log1024 (Fin r)) = js ''NaN undefined''"
    then have "hd (show_fixed2 (r / 1024 powi ?i) @ js '' '' @ sizes_at (math_floor_log1024 (Fin r)))
        = hd (js ''NaN undefined'')"
      unfolding d by (simp add: fixed2_string_def)
    with s(1) have "hd (show_fixed2 (r / 1024 powi ?i)) = 78"
      by (simp add: js_def)
    with s(2) show False by (simp add: is_digit_def)
  qed
qed

lemma zero_bytes_not_NaN: "js ''0 Bytes'' \<noteq> js ''NaN undefined''"
  by (simp add: js_def)

text \<open>
  C10, as stated: the formatter of the dashboard page returns \<open>0 Bytes\<close> for \<open>null\<close>,
  \<open>undefined\<close>, the empty string and every non-numeric input, so that malformed
  \<open>file_size\<close> values never produce \<open>NaN\<close>. A negative number and an infinite one are
  numeric: they pass the guard, their logarithm is \<open>NaN\<close>, and the text is
  \<open>NaN undefined\<close>.
\<close>

theorem formatFileSize_Dashboard_NaN_counterexample:
  "(\<forall>StringToNumber. formatFileSize_Dashboard StringToNumber (JNumber (Fin (- 5)))
      = js ''NaN undefined'') \<and>
   (\<forall>StringToNumber. formatFileSize_Dashboard StringToNumber (JNumber PosInf)
      = js ''NaN undefined'')"
proof -
  have "formatFileSize_Dashboard StringToNumber (JNumber (Fin (- 5))) = js ''NaN undefined''"
    for StringToNumber
    using format_negative [of "- 5"]
    by (simp add: formatFileSize_Dashboard_def ToNumber_def)
  moreover have "formatFileSize_Dashboard StringToNumber (JNumber PosInf) = js ''NaN undefined''"
    for StringToNumber
    using format_infinite [of PosInf]
    by (simp add: formatFileSize_Dashboard_def ToNumber_def)
  ultimately show ?thesis by blast
qed

text \<open>
  C10, amended. The formatter of the dashboard page returns \<open>0 Bytes\<close> for \<open>null\<close>, for
  \<open>undefined\<close>, for the empty string and for every input that \<open>Number\<close> turns into
  \<open>NaN\<close>, and it returns a text for every input (it does not throw). The text is
  \<open>NaN undefined\<close> exactly when the input is not the empty string and \<open>Number\<close> turns it
  into a negative number or an infinite one.
\<close>

theorem formatFileSize_Dashboard_malformed:
  "(bytes = JNull \<or> bytes = JUndefined \<or> bytes = JString []
      \<or> ToNumber StringToNumber bytes = NaN
    \<longrightarrow> formatFileSize_Dashboard StringToNumber bytes = js ''0 Bytes'') \<and>
   (formatFileSize_Dashboard StringToNumber bytes = js ''NaN undefined'' \<longleftrightarrow>
      bytes \<noteq> JString [] \<and>
      ((\<exists>r < 0. ToNumber StringToNumber bytes = Fin r)
       \<or> ToNumber StringToNumber bytes = PosInf \<or> ToNumber StringToNumber bytes = NegInf))"
proof (intro conjI impI)
  assume "bytes = JNull \<or> bytes = JUndefined \<or> bytes = JString []
      \<or> ToNumber StringToNumber bytes = NaN"
  then show "formatFileSize_Dashboard StringToNumber bytes = js ''0 Bytes''"
    by (auto simp: formatFileSize_Dashboard_def)
next
  let ?n = "ToNumber StringToNumber bytes"
  let ?guard = "bytes = JNull \<or> bytes = JUndefined \<or> bytes = JString [] \<or> ?n = NaN"
  show "formatFileSize_Dashboard StringToNumber bytes = js ''NaN undefined'' \<longleftrightarrow>
      bytes \<noteq> JString [] \<and> ((\<exists>r < 0. ?n = Fin r) \<or> ?n = PosInf \<or> ?n = NegInf)"
  proof (cases ?guard)
    case True
    then have "formatFileSize_Dashboard StringToNumber bytes = js ''0 Bytes''"
      by (auto simp: formatFileSize_Dashboard_def)
    moreover from True have "\<not> (bytes \<noteq> JString [] \<and>
        ((\<exists>r < 0. ?n = Fin r) \<or> ?n = PosInf \<or> ?n = NegInf))"
      by (auto simp: ToNumber_def)
    ultimately show ?thesis using zero_bytes_not_NaN by simp
  next
    case False
    then have g: "bytes \<noteq> JString []" "?n \<noteq> NaN" by simp_all
    from False have f: "formatFileSize_Dashboard StringToNumber bytes =
        (if ?n = Fin 0 then js ''0 Bytes''
         else fixed2_string (js_divide ?n (math_pow1024 (math_floor_log1024 ?n)))
                @ js '' '' @ sizes_at (math_floor_log1024 ?n))"
      by (simp add: formatFileSize_Dashboard_def Let_def)
    show ?thesis
    proof (cases ?n)
      case NaN
      with g show ?thesis by simp
    next
      case PosInf
      with f g format_infinite [of PosInf] show ?thesis by simp
    next
      case NegInf
      with f g format_infinite [of NegInf] show ?thesis by simp
    next
      case (Fin r)
      consider "r < 0" | "r = 0" | "0 < r" by linarith
      then show ?thesis
      proof cases
        case 1
        with f g Fin format_negative [of r] show ?thesis by simp
      next
        case 2
        with f g Fin zero_bytes_not_NaN show ?thesis by simp
      next
        case 3
        with f g Fin format_positive [of r] show ?thesis by simp
      qed
    qed
  qed
qed

theorem formatFileSize_Dashboard_malformed_witness:
  "formatFileSize_Dashboard (\<lambda>s. NaN) JNull = js ''0 Bytes'' \<and>
   formatFileSize_Dashboard (\<lambda>s. NaN) JUndefined = js ''0 Bytes'' \<and>
   formatFileSize_Dashboard (\<lambda>s. NaN) (JString []) = js ''0 Bytes'' \<and>
   formatFileSize_Dashboard (\<lambda>s. NaN) (JString (js ''12 kB'')) = js ''0 Bytes'' \<and>
   formatFileSize_Dashboard (\<lambda>s. NaN) (JNumber NaN) = js ''0 Bytes'' \<and>
   formatFileSize_Dashboard (\<lambda>s. Fin (- 5)) (JString (js ''-5'')) = js ''NaN undefined'' \<and>
   formatFileSize_Dashboard (\<lambda>s. NaN) (JNumber (Fin 1536)) \<noteq> js ''NaN undefined''"
proof -
  have n: "js ''-5'' \<noteq> []" by (simp add: js_def)
  from formatFileSize_Dashboard_malformed [of JNull "\<lambda>s. NaN"]
    formatFileSize_Dashboard_malformed [of JUndefined "\<lambda>s. NaN"]
    formatFileSize_Dashboard_malformed [of "JString []" "\<lambda>s. NaN"]
    formatFileSize_Dashboard_malformed [of "JString (js ''12 kB'')" "\<lambda>s. NaN"]
    formatFileSize_Dashboard_malformed [of "JNumber NaN" "\<lambda>s. NaN"]
    formatFileSize_Dashboard_malformed [of "JString (js ''-5'')" "\<lambda>s. Fin (- 5)"]
    formatFileSize_Dashboard_malformed [of "JNumber (Fin 1536)" "\<lambda>s. NaN"]
    n
  show ?thesis by (simp add: ToNumber_def)
qed

section \<open>Properties of the similarity search\<close>

lemma sort_by_Nil: "sort_by precedes [] = []"
  by (simp add: sort_by_def)

lemma purposes_differ:
  "documentPurpose (fst (analyzeAndFindSimilarFiles toLowerCase file (Inl e))) \<noteq>
   documentPurpose (fst (analyzeAndFindSimilarFiles toLowerCase file (Inr existingFiles)))"
proof -
  have a: "documentPurpose (fst (analyzeAndFindSimilarFiles toLowerCase file (Inl e)))
      = js ''Document file''"
    by (simp add: analyzeAndFindSimilarFiles_def)
  have b: "documentPurpose (fst (analyzeAndFindSimilarFiles toLowerCase file (Inr existingFiles)))
      = describe_type (file_type file) @ js '' for organization''"
    by (simp add: analyzeAndFindSimilarFiles_def Let_def)
  have "last (js ''Document file'') = 101"
    by (simp add: js_def)
  moreover have "last (describe_type (file_type file) @ js '' for organization'') = 110"
    by (simp add: js_def)
  ultimately have "js ''Document file'' \<noteq> describe_type (file_type file) @ js '' for organization''"
    by auto
  then show ?thesis unfolding a b .
qed

text \<open>
  C6, as stated: after a failed remote call a caller of either path cannot tell the
  outcome from "no similar files exist". \<open>analyzeAndFindSimilarFiles\<close> returns the
  analysis of the new file together with the list, and its \<open>catch\<close> fills the analysis
  with fixed texts: for one and the same file, what it returns after a failed call
  differs from what it returns when the organisation has no files.
\<close>

theorem failed_analysis_counterexample:
  "\<forall>toLowerCase.
     analyzeAndFindSimilarFiles toLowerCase (sample_upload 1) (Inl RemoteError) \<noteq>
     analyzeAndFindSimilarFiles toLowerCase (sample_upload 1) (Inr [])"
proof
  fix toLowerCase
  from purposes_differ [of toLowerCase "sample_upload 1" RemoteError "[]"]
  show "analyzeAndFindSimilarFiles toLowerCase (sample_upload 1) (Inl RemoteError) \<noteq>
     analyzeAndFindSimilarFiles toLowerCase (sample_upload 1) (Inr [])"
    by auto
qed

text \<open>
  C6, amended. When a remote call of the similarity analysis throws, both paths return
  an empty list of similar files: \<open>findSimilarFiles\<close> when listing the files fails and
  when the call to the hosted model fails, \<open>analyzeAndFindSimilarFiles\<close> when listing the
  files fails. It is the list each of them returns when the organisation has no files,
  and the list \<open>findSimilarFiles\<close> returns when the model reports no similarity, so the
  list of similar files does not tell a caller a failed analysis from an analysis that
  found nothing. \<open>findSimilarFiles\<close> returns nothing but the list. The analysis that
  \<open>analyzeAndFindSimilarFiles\<close> returns with the list does tell them apart: its
  \<open>documentPurpose\<close> after a failed call is never the one of a call that succeeded.
\<close>

theorem failed_search_looks_empty:
  "findSimilarFiles (Inl e) generated = [] \<and>
   findSimilarFiles (Inr existingFiles) (Inl e) = [] \<and>
   findSimilarFiles (Inr []) generated = [] \<and>
   findSimilarFiles (Inr existingFiles) (Inr []) = [] \<and>
   snd (analyzeAndFindSimilarFiles toLowerCase file (Inl e)) = [] \<and>
   snd (analyzeAndFindSimilarFiles toLowerCase file (Inr [])) = [] \<and>
   documentPurpose (fst (analyzeAndFindSimilarFiles toLowerCase file (Inl e))) \<noteq>
     documentPurpose (fst (analyzeAndFindSimilarFiles toLowerCase file (Inr existingFiles)))"
proof -
  have "findSimilarFiles (Inl e) generated = [] \<and>
   findSimilarFiles (Inr existingFiles) (Inl e) = [] \<and>
   findSimilarFiles (Inr []) generated = [] \<and>
   findSimilarFiles (Inr existingFiles) (Inr []) = [] \<and>
   snd (analyzeAndFindSimilarFiles toLowerCase file (Inl e)) = [] \<and>
   snd (analyzeAndFindSimilarFiles toLowerCase file (Inr [])) = []"
    by (simp add: findSimilarFiles_def ai_results_def analyzeAndFindSimilarFiles_def
        name_matches_def sort_by_Nil)
  with purposes_differ show ?thesis
    by simp
qed

section \<open>Properties of the content hash\<close>

lemma hashed_bytes:
  "take (min (length (take 1000 bs)) 100) (take 1000 bs) = take (min 100 (length bs)) bs"
  by (simp add: min_def)

text \<open>
  C8. The hash of a file is determined by its name, its size, its modification time and
  its first \<open>min(100, size)\<close> bytes: two files that agree on these four have the same
  hash, whatever their bytes from the 101st on.
\<close>

theorem generateFileHash_depends_only:
  assumes "file_name f = file_name g"
    and "file_size f = file_size g"
    and "file_lastModified f = file_lastModified g"
    and "take (min 100 (file_size f)) (file_bytes f) = take (min 100 (file_size g)) (file_bytes g)"
  shows "generateFileHash f = generateFileHash g"
  using assms unfolding generateFileHash_def Let_def hashed_bytes
  by (simp add: file_size_def)

theorem generateFileHash_depends_only_witness:
  "file_bytes (sample_upload 1) \<noteq> file_bytes (sample_upload 2) \<and>
   generateFileHash (sample_upload 1) = generateFileHash (sample_upload 2)"
  using generateFileHash_depends_only [of "sample_upload 1" "sample_upload 2"]
  by (simp add: sample_upload_def file_size_def)

section \<open>Properties of the version history\<close>

subsection \<open>Sorting keeps the elements\<close>

lemma set_insert_by: "set (insert_by precedes x xs) = insert x (set xs)"
  by (induction xs) auto

lemma distinct_map_insert_by:
  "distinct (map f (insert_by precedes x xs)) \<longleftrightarrow> f x \<notin> f ` set xs \<and> distinct (map f xs)"
  by (induction xs) (auto simp: set_insert_by)

lemma set_sort_by: "set (sort_by precedes xs) = set xs"
  by (induction xs) (auto simp: sort_by_def set_insert_by)

lemma distinct_map_sort_by: "distinct (map f (sort_by precedes xs)) \<longleftrightarrow> distinct (map f xs)"
proof (induction xs)
  case Nil
  then show ?case by (simp add: sort_by_def)
next
  case (Cons x xs)
  have "sort_by precedes (x # xs) = insert_by precedes x (sort_by precedes xs)"
    by (simp add: sort_by_def)
  then show ?case
    using Cons by (simp add: distinct_map_insert_by set_sort_by)
qed

subsection \<open>\<open>findIndex\<close> and the filter on first occurrences\<close>

lemma findIndex_Some:
  "findIndex p xs = Some k \<Longrightarrow> k < length xs \<and> p (xs ! k)"
proof (induction xs arbitrary: k)
  case Nil
  then show ?case by simp
next
  case (Cons x xs)
  then show ?case by (cases "p x") (auto split: if_splits)
qed

lemma findIndex_found: "x \<in> set xs \<Longrightarrow> p x \<Longrightarrow> \<exists>k. findIndex p xs = Some k"
  by (induction xs) auto

lemma in_uniqueById:
  "v \<in> set (uniqueById xs) \<longleftrightarrow>
     (\<exists>k. k < length xs \<and> xs ! k = v \<and> findIndex (\<lambda>u. v_id u = v_id v) xs = Some k)"
  by (auto simp: uniqueById_def in_set_enumerate_eq image_iff)

lemma distinct_uniqueById: "distinct (map v_id (uniqueById xs))"
proof -
  let ?keep = "\<lambda>(index, version). Some index = findIndex (\<lambda>v. v_id v = v_id version) xs"
  have d: "distinct (filter ?keep (enumerate 0 xs))"
    by (simp add: distinct_enumerate)
  have "inj_on (v_id \<circ> snd) (set (filter ?keep (enumerate 0 xs)))"
  proof (rule inj_onI)
    fix a b
    assume a: "a \<in> set (filter ?keep (enumerate 0 xs))"
      and b: "b \<in> set (filter ?keep (enumerate 0 xs))"
      and e: "(v_id \<circ> snd) a = (v_id \<circ> snd) b"
    obtain i x where ax: "a = (i, x)" by (cases a)
    obtain j y where bx: "b = (j, y)" by (cases b)
    from a ax have i: "i < length xs" "x = xs ! i" "Some i = findIndex (\<lambda>v. v_id v = v_id x) xs"
      by (auto simp: in_set_enumerate_eq)
    from b bx have j: "j < length xs" "y = xs ! j" "Some j = findIndex (\<lambda>v. v_id v = v_id y) xs"
      by (auto simp: in_set_enumerate_eq)
    from e ax bx have "v_id x = v_id y" by simp
    with i(3) j(3) have "i = j" by (metis option.inject)
    with i(2) j(2) ax bx show "a = b" by simp
  qed
  with d have "distinct (map (v_id \<circ> snd) (filter ?keep (enumerate 0 xs)))"
    by (simp add: distinct_map)
  then show ?thesis by (simp add: uniqueById_def)
qed

lemma ids_uniqueById: "set (map v_id (uniqueById xs)) = set (map v_id xs)"
proof
  show "set (map v_id (uniqueById xs)) \<subseteq> set (map v_id xs)"
    by (auto simp: in_uniqueById)
  show "set (map v_id xs) \<subseteq> set (map v_id (uniqueById xs))"
  proof
    fix i assume "i \<in> set (map v_id xs)"
    then obtain x where x: "x \<in> set xs" "v_id x = i" by auto
    then obtain k where k: "findIndex (\<lambda>u. v_id u = i) xs = Some k"
      using findIndex_found [of x xs "\<lambda>u. v_id u = i"] by blast
    from findIndex_Some [OF k] have "k < length xs" "v_id (xs ! k) = i" by simp_all
    with k have "xs ! k \<in> set (uniqueById xs)"
      by (auto simp: in_uniqueById)
    with \<open>v_id (xs ! k) = i\<close> show "i \<in> set (map v_id (uniqueById xs))" by force
  qed
qed

lemma ids_of_rows:
  "map v_id (map of_version_row fvs @ map of_file_row fs) = map fv_id fvs @ map f_id fs"
  by (simp add: of_version_row_def of_file_row_def comp_def)

text \<open>
  C7. For any two lists of rows that come back from the remote store, version rows and
  file rows, with or without ids in common, the list of versions that \<open>loadVersions\<close>
  produces has no id twice. It has an entry for every id of the two lists.
\<close>

theorem loadVersions_unique_ids:
  "distinct (map v_id (loadVersions getTime (Inr fvs) (Inr fs) versions)) \<and>
   set (map v_id (loadVersions getTime (Inr fvs) (Inr fs) versions)) =
     set (map fv_id fvs) \<union> set (map f_id fs)"
proof -
  let ?all = "map of_version_row fvs @ map of_file_row fs"
  have l: "loadVersions getTime (Inr fvs) (Inr fs) versions =
      sort_by (by_date_desc getTime) (uniqueById ?all)"
    by (simp add: loadVersions_def mergeVersions_def)
  have "set (map v_id (sort_by (by_date_desc getTime) (uniqueById ?all))) =
      set (map v_id (uniqueById ?all))"
    by (simp add: set_sort_by)
  also have "\<dots> = set (map v_id ?all)"
    by (rule ids_uniqueById)
  also have "\<dots> = set (map fv_id fvs) \<union> set (map f_id fs)"
    unfolding ids_of_rows by simp
  finally have s: "set (map v_id (sort_by (by_date_desc getTime) (uniqueById ?all))) =
      set (map fv_id fvs) \<union> set (map f_id fs)" .
  have d: "distinct (map v_id (sort_by (by_date_desc getTime) (uniqueById ?all)))"
    by (simp only: distinct_map_sort_by distinct_uniqueById)
  from d s show ?thesis unfolding l by (rule conjI)
qed

subsection \<open>The writes of \<open>handleRestore\<close>\<close>







subsection \<open>The history read back after a restore\<close>














section \<open>Properties of the name similarity\<close>

subsection \<open>The edit distance\<close>

lemma edit_distance_Nil2 [simp]: "edit_distance xs [] = length xs"
  by (cases xs) simp_all

lemma edit_distance_sym: "edit_distance xs ys = edit_distance ys xs"
proof (induction xs ys rule: edit_distance.induct)
  case (1 ys)
  then show ?case by simp
next
  case (2 x xs)
  then show ?case by simp
next
  case (3 x xs y ys)
  have "(x = y) = (y = x)" by auto
  with 3 show ?case by (simp add: min.commute)
qed

lemma edit_distance_same: "edit_distance xs xs = 0"
  by (induction xs) simp_all

lemma edit_distance_Cons2_le: "edit_distance xs (y # ys) \<le> edit_distance xs ys + 1"
  by (cases xs) simp_all

lemma edit_distance_drop1: "edit_distance xs ys \<le> edit_distance (x # xs) ys + 1"
proof (induction ys arbitrary: xs x)
  case Nil
  then show ?case by simp
next
  case (Cons y ys)
  have a: "edit_distance xs (y # ys) \<le> edit_distance xs ys + 1"
    by (rule edit_distance_Cons2_le)
  have b: "edit_distance xs ys \<le> edit_distance (x # xs) ys + 1"
    by (rule Cons.IH)
  from a b show ?case by simp
qed

lemma edit_distance_drop2: "edit_distance xs ys \<le> edit_distance xs (y # ys) + 1"
  using edit_distance_drop1 [of ys xs y] by (simp add: edit_distance_sym)

lemma edit_distance_Cons_same: "edit_distance (x # xs) (x # ys) = edit_distance xs ys"
  using edit_distance_drop1 [of xs ys x] edit_distance_drop2 [of xs ys x] by simp

text \<open>Sums over nested minima, as they arise when the recurrence is unfolded twice.\<close>

lemma min_grid:
  fixes p1 p2 p3 q1 q2 q3 r1 r2 r3 d e :: nat
  shows "min (min (p1 + d) (min (p2 + 1) (p3 + 1)) + e)
           (min (min (q1 + d) (min (q2 + 1) (q3 + 1)) + 1)
                (min (r1 + d) (min (r2 + 1) (r3 + 1)) + 1)) =
         min (min (p1 + e) (min (q1 + 1) (r1 + 1)) + d)
           (min (min (p2 + e) (min (q2 + 1) (r2 + 1)) + 1)
                (min (p3 + e) (min (q3 + 1) (r3 + 1)) + 1))"
  apply (simp only: min_add_distrib_left)
  apply (simp only: add.assoc add.commute add.left_commute)
  apply (simp only: min.assoc min.commute min.left_commute)
  done

lemma edit_distance_single_snoc:
  "edit_distance [a] (ys @ [b]) =
     min (length ys + (if a = b then 0 else 1))
         (min (edit_distance [a] ys + 1) (length ys + 1 + 1))"
proof (induction ys)
  case Nil
  then show ?case by simp
next
  case (Cons y ys)
  let ?d = "\<lambda>u v. if u = v then 0 else (1::nat)"
  have l: "edit_distance [a] ((y # ys) @ [b]) =
      min (length ys + 1 + ?d a y)
        (min (length ys + 1 + 1 + 1) (edit_distance [a] (ys @ [b]) + 1))"
    by simp
  have r: "edit_distance [a] (y # ys) =
      min (length ys + ?d a y) (min (length ys + 1 + 1) (edit_distance [a] ys + 1))"
    by simp
  have n: "length (y # ys) = length ys + 1" by simp
  show ?case
    unfolding l r n Cons.IH
    apply (simp only: min_add_distrib_left)
    apply (simp only: add.assoc add.commute add.left_commute)
    apply (simp only: min.assoc min.commute min.left_commute min.idem min.left_idem)
    done
qed

lemma edit_distance_snoc:
  "edit_distance (xs @ [a]) (ys @ [b]) =
     min (edit_distance xs ys + (if a = b then 0 else 1))
         (min (edit_distance (xs @ [a]) ys + 1) (edit_distance xs (ys @ [b]) + 1))"
proof (induction xs ys rule: edit_distance.induct)
  case (1 ys)
  show ?case using edit_distance_single_snoc [of a ys b] by simp
next
  case (2 x xs)
  have "edit_distance ((x # xs) @ [a]) [b] = edit_distance [b] ((x # xs) @ [a])"
    by (rule edit_distance_sym)
  also have "\<dots> = min (length (x # xs) + (if b = a then 0 else 1))
         (min (edit_distance [b] (x # xs) + 1) (length (x # xs) + 1 + 1))"
    by (rule edit_distance_single_snoc)
  also have "edit_distance [b] (x # xs) = edit_distance (x # xs) [b]"
    by (rule edit_distance_sym)
  also have "(b = a) = (a = b)" by auto
  finally have "edit_distance ((x # xs) @ [a]) [b] =
      min (length (x # xs) + (if a = b then 0 else 1))
         (min (edit_distance (x # xs) [b] + 1) (length (x # xs) + 1 + 1))" .
  moreover have "edit_distance (x # xs) [] = length (x # xs)"
    "edit_distance ((x # xs) @ [a]) [] = length (x # xs) + 1" "[] @ [b] = [b]"
    by simp_all
  ultimately show ?case
    by (simp only: min.commute min.left_commute)
next
  case (3 x xs y ys)
  let ?d = "\<lambda>u v. if u = v then 0 else (1::nat)"
  have l: "edit_distance ((x # xs) @ [a]) ((y # ys) @ [b]) =
      min (edit_distance (xs @ [a]) (ys @ [b]) + ?d x y)
        (min (edit_distance (xs @ [a]) ((y # ys) @ [b]) + 1)
             (edit_distance ((x # xs) @ [a]) (ys @ [b]) + 1))"
    by simp
  have r1: "edit_distance (x # xs) (y # ys) =
      min (edit_distance xs ys + ?d x y)
        (min (edit_distance xs (y # ys) + 1) (edit_distance (x # xs) ys + 1))"
    by simp
  have r2: "edit_distance ((x # xs) @ [a]) (y # ys) =
      min (edit_distance (xs @ [a]) ys + ?d x y)
        (min (edit_distance (xs @ [a]) (y # ys) + 1) (edit_distance ((x # xs) @ [a]) ys + 1))"
    by simp
  have r3: "edit_distance (x # xs) ((y # ys) @ [b]) =
      min (edit_distance xs (ys @ [b]) + ?d x y)
        (min (edit_distance xs ((y # ys) @ [b]) + 1) (edit_distance (x # xs) (ys @ [b]) + 1))"
    by simp
  show ?case
    unfolding l "3.IH" r1 r2 r3 by (rule min_grid)
qed

lemma edit_distance_rev: "edit_distance (rev xs) (rev ys) = edit_distance xs ys"
proof (induction xs ys rule: edit_distance.induct)
  case (1 ys)
  then show ?case by simp
next
  case (2 x xs)
  then show ?case by simp
next
  case (3 x xs y ys)
  have "edit_distance (rev (x # xs)) (rev (y # ys)) =
      edit_distance (rev xs @ [x]) (rev ys @ [y])" by simp
  also have "\<dots> = min (edit_distance (rev xs) (rev ys) + (if x = y then 0 else 1))
      (min (edit_distance (rev xs @ [x]) (rev ys) + 1) (edit_distance (rev xs) (rev ys @ [y]) + 1))"
    by (rule edit_distance_snoc)
  also have "rev xs @ [x] = rev (x # xs)" by simp
  also have "rev ys @ [y] = rev (y # ys)" by simp
  finally show ?case
    unfolding "3.IH" by (simp add: min.commute)
qed

lemma edit_distance_snoc_same:
  "edit_distance (xs @ [a]) (ys @ [a]) = edit_distance xs ys"
proof -
  have "edit_distance (xs @ [a]) (ys @ [a]) = edit_distance (rev (xs @ [a])) (rev (ys @ [a]))"
    by (simp only: edit_distance_rev)
  also have "\<dots> = edit_distance (a # rev xs) (a # rev ys)"
    by simp
  also have "\<dots> = edit_distance (rev xs) (rev ys)"
    by (rule edit_distance_Cons_same)
  finally show ?thesis by (simp only: edit_distance_rev)
qed

subsection \<open>The matrix computes the edit distance\<close>

lemma prefix_distance_row0: "c \<le> length str1 \<Longrightarrow> prefix_distance str1 str2 0 c = c"
  by (simp add: prefix_distance_def)

lemma prefix_distance_col0: "r \<le> length str2 \<Longrightarrow> prefix_distance str1 str2 r 0 = r"
  by (simp add: prefix_distance_def)

lemma prefix_distance_step:
  assumes "i < length str2" and "j < length str1"
  shows "prefix_distance str1 str2 (Suc i) (Suc j) =
     (if str2 ! i = str1 ! j then prefix_distance str1 str2 i j
      else min (min (prefix_distance str1 str2 i j + 1) (prefix_distance str1 str2 (Suc i) j + 1))
               (prefix_distance str1 str2 i (Suc j) + 1))"
proof -
  have t2: "take (Suc i) str2 = take i str2 @ [str2 ! i]"
    using assms(1) by (rule take_Suc_conv_app_nth)
  have t1: "take (Suc j) str1 = take j str1 @ [str1 ! j]"
    using assms(2) by (rule take_Suc_conv_app_nth)
  show ?thesis
  proof (cases "str2 ! i = str1 ! j")
    case True
    then show ?thesis
      unfolding prefix_distance_def t1 t2 by (simp add: edit_distance_snoc_same)
  next
    case False
    have "edit_distance (take i str2 @ [str2 ! i]) (take j str1 @ [str1 ! j]) =
        min (edit_distance (take i str2) (take j str1) + 1)
          (min (edit_distance (take i str2 @ [str2 ! i]) (take j str1) + 1)
               (edit_distance (take i str2) (take j str1 @ [str1 ! j]) + 1))"
      using False by (simp only: edit_distance_snoc if_False)
    with False show ?thesis
      unfolding prefix_distance_def t1 t2 by (simp only: if_False min.assoc)
  qed
qed

lemma init_rows:
  "fold (\<lambda>i matrix. array_set matrix i [i]) [0..<k] [] = map (\<lambda>i. [i]) [0..<k]"
  by (induction k) (simp_all add: array_set_def)

lemma init_first_row:
  assumes "0 < length m" and "m ! 0 = [0]"
  shows "fold (\<lambda>j matrix. cell_set matrix 0 j j) [0..<Suc k] m = m[0 := [0..<Suc k]]"
proof (induction k)
  case 0
  from assms show ?case by (simp add: cell_set_def array_set_def)
next
  case (Suc k)
  have "fold (\<lambda>j matrix. cell_set matrix 0 j j) [0..<Suc (Suc k)] m =
      cell_set (fold (\<lambda>j matrix. cell_set matrix 0 j j) [0..<Suc k] m) 0 (Suc k) (Suc k)"
    by simp
  also have "\<dots> = cell_set (m[0 := [0..<Suc k]]) 0 (Suc k) (Suc k)"
    by (simp only: Suc.IH)
  also have "\<dots> = m[0 := [0..<Suc (Suc k)]]"
    using assms(1) by (simp add: cell_set_def array_set_def)
  finally show ?case .
qed

lemma rows_filled_init:
  "rows_filled str1 str2 0 (length str1)
     (fold (\<lambda>j matrix. cell_set matrix 0 j j) [0..<Suc (length str1)]
        (fold (\<lambda>i matrix. array_set matrix i [i]) [0..<Suc (length str2)] []))"
proof -
  let ?m0 = "map (\<lambda>i. [i]) [0..<Suc (length str2)]"
  have m0: "fold (\<lambda>i matrix. array_set matrix i [i]) [0..<Suc (length str2)] [] = ?m0"
    by (rule init_rows)
  have "0 < length ?m0" "?m0 ! 0 = [0]"
    by (simp_all add: nth_map_upt del: upt_Suc)
  then have m1: "fold (\<lambda>j matrix. cell_set matrix 0 j j) [0..<Suc (length str1)] ?m0 =
      ?m0[0 := [0..<Suc (length str1)]]"
    by (rule init_first_row)
  have row0: "map (prefix_distance str1 str2 0) [0..<Suc (length str1)] = [0..<Suc (length str1)]"
    by (rule map_idI) (auto simp: prefix_distance_row0 simp del: upt_Suc)
  have rest: "(?m0[0 := [0..<Suc (length str1)]]) ! r = [r]" if "0 < r" "r \<le> length str2" for r
    using that by (simp add: nth_map_upt del: upt_Suc)
  show ?thesis
    unfolding m0 m1 rows_filled_def using row0 rest
    by (simp del: upt_Suc)
qed

lemma rows_filled_cell:
  assumes inv: "rows_filled str1 str2 i j matrix"
    and i: "0 < i" "i \<le> length str2" and j: "j < length str1"
  shows "rows_filled str1 str2 i (Suc j) (fill_cell str1 str2 i (Suc j) matrix)"
proof -
  obtain i' where i': "i = Suc i'" using i(1) by (cases i) auto
  from inv have len: "length matrix = Suc (length str2)"
    and above: "matrix ! i' = map (prefix_distance str1 str2 i') [0..<Suc (length str1)]"
    and row: "matrix ! i = map (prefix_distance str1 str2 i) [0..<Suc j]"
    by (simp_all add: rows_filled_def i')
  have a: "matrix ! i' ! j = prefix_distance str1 str2 i' j"
    "matrix ! i' ! Suc j = prefix_distance str1 str2 i' (Suc j)"
    using j unfolding above by (simp_all add: nth_map_upt del: upt_Suc)
  have b: "matrix ! i ! j = prefix_distance str1 str2 i j"
    unfolding row by (simp add: nth_map_upt del: upt_Suc)
  have v: "(if str2 ! i' = str1 ! j then matrix ! i' ! j
            else min (min (matrix ! i' ! j + 1) (matrix ! i ! j + 1)) (matrix ! i' ! Suc j + 1))
           = prefix_distance str1 str2 i (Suc j)"
  proof -
    have "i' < length str2" using i(2) i' by simp
    from prefix_distance_step [OF this j] show ?thesis
      unfolding a b unfolding i' by (rule sym)
  qed
  have f: "fill_cell str1 str2 i (Suc j) matrix =
      matrix[i := matrix ! i @ [prefix_distance str1 str2 i (Suc j)]]"
  proof -
    have "fill_cell str1 str2 i (Suc j) matrix =
        cell_set matrix i (Suc j)
          (if str2 ! i' = str1 ! j then matrix ! i' ! j
           else min (min (matrix ! i' ! j + 1) (matrix ! i ! j + 1)) (matrix ! i' ! Suc j + 1))"
      by (simp add: fill_cell_def i')
    also have "\<dots> = cell_set matrix i (Suc j) (prefix_distance str1 str2 i (Suc j))"
      by (simp only: v)
    also have "\<dots> = matrix[i := matrix ! i @ [prefix_distance str1 str2 i (Suc j)]]"
      unfolding cell_set_def array_set_def row by simp
    finally show ?thesis .
  qed
  have "matrix ! i @ [prefix_distance str1 str2 i (Suc j)] =
      map (prefix_distance str1 str2 i) [0..<Suc (Suc j)]"
    unfolding row by simp
  with inv i len show ?thesis
    unfolding f rows_filled_def by (simp del: upt_Suc)
qed

lemma rows_filled_row:
  assumes "rows_filled str1 str2 i 0 matrix" and "0 < i" "i \<le> length str2" and "k \<le> length str1"
  shows "rows_filled str1 str2 i k (fold (fill_cell str1 str2 i) [1..<Suc k] matrix)"
  using assms(4)
proof (induction k)
  case 0
  from assms(1) show ?case by simp
next
  case (Suc k)
  then have "rows_filled str1 str2 i k (fold (fill_cell str1 str2 i) [1..<Suc k] matrix)"
    and "k < length str1" by simp_all
  with assms(2,3) have "rows_filled str1 str2 i (Suc k)
      (fill_cell str1 str2 i (Suc k) (fold (fill_cell str1 str2 i) [1..<Suc k] matrix))"
    by (intro rows_filled_cell)
  then show ?case by simp
qed

lemma rows_filled_next:
  assumes "rows_filled str1 str2 i (length str1) matrix" and "Suc i \<le> length str2"
  shows "rows_filled str1 str2 (Suc i) 0 matrix"
proof -
  from assms have "matrix ! Suc i = [Suc i]"
    by (simp add: rows_filled_def)
  moreover have "prefix_distance str1 str2 (Suc i) 0 = Suc i"
    using assms(2) by (rule prefix_distance_col0)
  ultimately show ?thesis
    using assms by (auto simp: rows_filled_def less_Suc_eq)
qed

lemma rows_filled_all:
  assumes "rows_filled str1 str2 0 (length str1) matrix" and "k \<le> length str2"
  shows "rows_filled str1 str2 k (length str1)
     (fold (\<lambda>i matrix. fold (fill_cell str1 str2 i) [1..<Suc (length str1)] matrix) [1..<Suc k] matrix)"
  using assms(2)
proof (induction k)
  case 0
  from assms(1) show ?case by simp
next
  case (Suc k)
  let ?m = "fold (\<lambda>i matrix. fold (fill_cell str1 str2 i) [1..<Suc (length str1)] matrix) [1..<Suc k] matrix"
  from Suc have "rows_filled str1 str2 k (length str1) ?m" by simp
  with Suc.prems have "rows_filled str1 str2 (Suc k) 0 ?m"
    by (intro rows_filled_next)
  with Suc.prems have "rows_filled str1 str2 (Suc k) (length str1)
      (fold (fill_cell str1 str2 (Suc k)) [1..<Suc (length str1)] ?m)"
    by (intro rows_filled_row) simp_all
  then show ?case by simp
qed

lemma levenshteinDistance_correct:
  "levenshteinDistance str1 str2 = edit_distance str1 str2"
proof -
  let ?m1 = "fold (\<lambda>j matrix. cell_set matrix 0 j j) [0..<Suc (length str1)]
        (fold (\<lambda>i matrix. array_set matrix i [i]) [0..<Suc (length str2)] [])"
  let ?m2 = "fold (\<lambda>i matrix. fold (fill_cell str1 str2 i) [1..<Suc (length str1)] matrix)
      [1..<Suc (length str2)] ?m1"
  have "rows_filled str1 str2 (length str2) (length str1) ?m2"
    by (intro rows_filled_all rows_filled_init order_refl)
  then have "?m2 ! length str2 = map (prefix_distance str1 str2 (length str2)) [0..<Suc (length str1)]"
    by (simp add: rows_filled_def)
  then have "?m2 ! length str2 ! length str1 = prefix_distance str1 str2 (length str2) (length str1)"
    by (simp add: nth_map_upt del: upt_Suc)
  also have "\<dots> = edit_distance str2 str1"
    by (simp add: prefix_distance_def)
  also have "\<dots> = edit_distance str1 str2"
    by (rule edit_distance_sym)
  finally show ?thesis
    by (simp only: levenshteinDistance_def Let_def)
qed

subsection \<open>The similarity\<close>

text \<open>
  C4. For all strings \<open>s1\<close> and \<open>s2\<close>, \<open>calculateSimilarity(s1, s2)\<close> is the quotient
  \<open>(max(len1, len2) - editDistance(s1, s2)) / max(len1, len2)\<close>, the edit distance
  being the Levenshtein distance of the two strings in the order given. (For two empty
  strings both sides are the quotient \<open>0 / 0\<close>.)
\<close>

theorem calculateSimilarity_formula:
  "calculateSimilarity s1 s2 =
     js_divide (Fin (of_int (int (max (length s1) (length s2)) - int (edit_distance s1 s2))))
               (Fin (of_nat (max (length s1) (length s2))))"
proof (cases "length s1 > length s2")
  case True
  then have "max (length s1) (length s2) = length s1" by simp
  with True show ?thesis
    by (simp add: calculateSimilarity_def levenshteinDistance_correct)
next
  case False
  then have "max (length s1) (length s2) = length s2" by simp
  with False show ?thesis
    by (simp add: calculateSimilarity_def levenshteinDistance_correct edit_distance_sym [of s2 s1])
qed

lemma calculateSimilarity_same:
  "calculateSimilarity s s = (if s = [] then NaN else Fin 1)"
  by (simp add: calculateSimilarity_def levenshteinDistance_correct edit_distance_same)

text \<open>
  C5, as stated: the similarity of every string with itself is 1, the empty string
  included. For the empty string the quotient is \<open>0 / 0\<close>, which is \<open>NaN\<close>.
\<close>

theorem calculateSimilarity_empty_counterexample:
  "calculateSimilarity ([] :: jsstring) [] = NaN \<and> calculateSimilarity ([] :: jsstring) [] \<noteq> Fin 1"
  by (simp add: calculateSimilarity_same)

text \<open>
  C5, amended: the similarity of every non-empty string with itself is 1.
\<close>

theorem calculateSimilarity_self:
  assumes "s \<noteq> []"
  shows "calculateSimilarity s s = Fin 1"
  using assms by (simp add: calculateSimilarity_same)

theorem calculateSimilarity_self_witness:
  "js ''manual'' \<noteq> [] \<and> calculateSimilarity (js ''manual'') (js ''manual'') = Fin 1"
proof -
  have n: "js ''manual'' \<noteq> []" by (simp add: js_def)
  from calculateSimilarity_self [OF n] n show ?thesis by simp
qed

end
